theory Spec2Isabelle
  imports Main "HOL-Library.Sublist"
begin

section \<open>Python strings\<close>

text \<open>
  Strings are lists of characters, and a character is a code point below 256: the type
  \<open>char\<close> has these 256 values, and a string holding a code point above 255 is outside
  the model. The character classes below are Python's on this range: \<open>str.isspace\<close>
  (which is what \<open>str.strip()\<close> removes), the whitespace \<open>int()\<close> ignores, the
  digits \<open>int()\<close> reads, \<open>str.isalnum\<close> and \<open>str.lower\<close>. Python integers are
  unbounded, so they are \<open>int\<close>; the interpreter's limit on the number of digits of a
  decimal conversion is not modelled.
\<close>

abbreviation nl :: char where
  "nl \<equiv> CHR 0x0A"

definition isspace :: "char \<Rightarrow> bool" where
  "isspace c = (c \<in> set [CHR 0x09, CHR 0x0A, CHR 0x0B, CHR 0x0C, CHR 0x0D,
                         CHR 0x1C, CHR 0x1D, CHR 0x1E, CHR 0x1F, CHR 0x20,
                         CHR 0x85, CHR 0xA0])"

text \<open>
  The whitespace \<open>int()\<close> ignores around a literal: the separators \<open>0x1C\<close> to
  \<open>0x1F\<close> are not among it.
\<close>

definition int_isspace :: "char \<Rightarrow> bool" where
  "int_isspace c = (c \<in> set [CHR 0x09, CHR 0x0A, CHR 0x0B, CHR 0x0C, CHR 0x0D, CHR 0x20,
                             CHR 0x85, CHR 0xA0])"

definition isdigit :: "char \<Rightarrow> bool" where
  "isdigit c = (48 \<le> (of_char c :: nat) \<and> (of_char c :: nat) \<le> 57)"

definition isalnum :: "char \<Rightarrow> bool" where
  "isalnum c =
     (let n = (of_char c :: nat)
      in isdigit c \<or> (65 \<le> n \<and> n \<le> 90) \<or> (97 \<le> n \<and> n \<le> 122)
         \<or> n \<in> set [170, 178, 179, 181, 185, 186, 188, 189, 190]
         \<or> (192 \<le> n \<and> n \<le> 214) \<or> (216 \<le> n \<and> n \<le> 246) \<or> 248 \<le> n)"

definition lower_char :: "char \<Rightarrow> char" where
  "lower_char c =
     (let n = (of_char c :: nat)
      in if (65 \<le> n \<and> n \<le> 90) \<or> (192 \<le> n \<and> n \<le> 214) \<or> (216 \<le> n \<and> n \<le> 222)
         then char_of (n + 32) else c)"

definition lower :: "string \<Rightarrow> string" where
  "lower s = map lower_char s"

definition digit_val :: "char \<Rightarrow> nat" where
  "digit_val c = of_char c - 48"

definition digit_char :: "nat \<Rightarrow> char" where
  "digit_char d = char_of (48 + d)"

text \<open>\<open>s.strip()\<close>: leading and trailing whitespace removed.\<close>

definition strip_with :: "(char \<Rightarrow> bool) \<Rightarrow> string \<Rightarrow> string" where
  "strip_with ws s = rev (dropWhile ws (rev (dropWhile ws s)))"

definition strip :: "string \<Rightarrow> string" where
  "strip s = strip_with isspace s"

text \<open>
  \<open>s.split(c)\<close> for a one-character separator: the pieces between the occurrences of
  \<open>c\<close>; never the empty list (\<open>''.split(c) == ['']\<close>).
\<close>

fun split :: "char \<Rightarrow> string \<Rightarrow> string list" where
  "split c [] = [[]]"
| "split c (x # xs) =
     (if x = c then [] # split c xs
      else (case split c xs of
              [] \<Rightarrow> [[x]]
            | p # ps \<Rightarrow> (x # p) # ps))"

text \<open>\<open>sep.join(parts)\<close>.\<close>

fun join :: "string \<Rightarrow> string list \<Rightarrow> string" where
  "join sep [] = []"
| "join sep [p] = p"
| "join sep (p # q # ps) = p @ sep @ join sep (q # ps)"

text \<open>\<open>lines[0]\<close> of a split: the first piece (a split is never empty).\<close>

definition first_piece :: "char \<Rightarrow> string \<Rightarrow> string" where
  "first_piece c s = (case split c s of [] \<Rightarrow> [] | p # _ \<Rightarrow> p)"

text \<open>\<open>str(n)\<close> of an integer: decimal digits, with a minus sign when negative.\<close>

fun str_nat :: "nat \<Rightarrow> string" where
  "str_nat n = (if n < 10 then [digit_char n] else str_nat (n div 10) @ [digit_char (n mod 10)])"

definition str_int :: "int \<Rightarrow> string" where
  "str_int i = (if i < 0 then CHR ''-'' # str_nat (nat (- i)) else str_nat (nat i))"

text \<open>
  \<open>int(s)\<close> of a string, base 10: surrounding whitespace (of \<open>int()\<close>'s own kind) is
  ignored, then an optional sign, then decimal digits, where single underscores may stand
  between digits. \<open>None\<close> is the \<open>ValueError\<close> of an invalid literal.
\<close>

fun py_digits :: "nat \<Rightarrow> string \<Rightarrow> nat option" where
  "py_digits acc [] = None"
| "py_digits acc [c] = (if isdigit c then Some (10 * acc + digit_val c) else None)"
| "py_digits acc (c # d # cs) =
     (if \<not> isdigit c then None
      else if d = CHR ''_'' then py_digits (10 * acc + digit_val c) cs
      else py_digits (10 * acc + digit_val c) (d # cs))"

definition py_int :: "string \<Rightarrow> int option" where
  "py_int s =
     (case strip_with int_isspace s of
        [] \<Rightarrow> None
      | c # cs \<Rightarrow>
          if c = CHR ''-'' then map_option (\<lambda>n. - int n) (py_digits 0 cs)
          else if c = CHR ''+'' then map_option int (py_digits 0 cs)
          else map_option int (py_digits 0 (c # cs)))"

text \<open>\<open>s.startswith(p)\<close> and \<open>s.endswith(p)\<close>.\<close>

definition startswith :: "string \<Rightarrow> string \<Rightarrow> bool" where
  "startswith s p = prefix p s"

definition endswith :: "string \<Rightarrow> string \<Rightarrow> bool" where
  "endswith s p = suffix p s"

section \<open>Parsed YAML\<close>

text \<open>
  What \<open>yaml.safe_load\<close> returns for the fenced block of a response: \<open>None\<close>,
  \<open>bool\<close>, \<open>int\<close>, \<open>str\<close>, \<open>list\<close> and \<open>dict\<close> (a dict as its items in
  insertion order). Floats, timestamps, binaries and sets are left out.
\<close>

datatype yaml =
    YNull
  | YBool bool
  | YInt int
  | YStr string
  | YList "yaml list"
  | YDict "(yaml \<times> yaml) list"

text \<open>
  \<open>repr\<close> of a string: single quotes unless the string holds a single quote and no
  double quote; backslash, the quote, newline, carriage return and tab are escaped,
  the other characters that are not printable (below \<open>0x20\<close>, \<open>0x7F\<close> to \<open>0xA0\<close>,
  \<open>0xAD\<close>) are written \<open>\xNN\<close>.
\<close>

definition hex_digit :: "nat \<Rightarrow> char" where
  "hex_digit d = (if d < 10 then char_of (48 + d) else char_of (87 + d))"

definition repr_char :: "char \<Rightarrow> char \<Rightarrow> string" where
  "repr_char q c =
     (if c = CHR 0x5C then [CHR 0x5C, CHR 0x5C]
      else if c = q then [CHR 0x5C, q]
      else if c = nl then [CHR 0x5C, CHR ''n'']
      else if c = CHR 0x0D then [CHR 0x5C, CHR ''r'']
      else if c = CHR 0x09 then [CHR 0x5C, CHR ''t'']
      else if (of_char c :: nat) < 32
              \<or> (127 \<le> (of_char c :: nat) \<and> (of_char c :: nat) \<le> 160)
              \<or> (of_char c :: nat) = 173
        then [CHR 0x5C, CHR ''x'', hex_digit ((of_char c :: nat) div 16),
              hex_digit ((of_char c :: nat) mod 16)]
      else [c])"

definition repr_str :: "string \<Rightarrow> string" where
  "repr_str s =
     (let q = (if CHR 0x27 \<in> set s \<and> CHR 0x22 \<notin> set s then CHR 0x22 else CHR 0x27)
      in q # concat (map (repr_char q) s) @ [q])"

fun py_repr :: "yaml \<Rightarrow> string" where
  "py_repr YNull = ''None''"
| "py_repr (YBool b) = (if b then ''True'' else ''False'')"
| "py_repr (YInt i) = str_int i"
| "py_repr (YStr s) = repr_str s"
| "py_repr (YList xs) = ''['' @ join '', '' (map py_repr xs) @ '']''"
| "py_repr (YDict kvs) =
     ''{'' @ join '', '' (map (\<lambda>kv. py_repr (fst kv) @ '': '' @ py_repr (snd kv)) kvs) @ ''}''"

text \<open>\<open>str(v)\<close>, which is also how an f-string renders \<open>{v}\<close>.\<close>

fun py_str :: "yaml \<Rightarrow> string" where
  "py_str (YStr s) = s"
| "py_str v = py_repr v"

text \<open>\<open>k in d\<close> and \<open>d[k]\<close> for a string key.\<close>

definition has_key :: "(yaml \<times> yaml) list \<Rightarrow> string \<Rightarrow> bool" where
  "has_key d k = (map_of d (YStr k) \<noteq> None)"

definition get_key :: "(yaml \<times> yaml) list \<Rightarrow> string \<Rightarrow> yaml option" where
  "get_key d k = map_of d (YStr k)"

section \<open>Errors\<close>

text \<open>
  Every failure of the validation code is a Python \<open>ValueError\<close>; the constructors
  tell the \<open>raise\<close> statements apart by their message and carry what the message
  formats. \<open>InvalidLiteral\<close> is the \<open>ValueError\<close> of \<open>int()\<close> itself. The messages:
  \<^item> \<open>OutputNotList\<close>: "LLM Output is not a list" (IdentifyAbstractions, OrderChapters);
  \<^item> \<open>MissingKeys item\<close>: "Missing keys in abstraction item: {item}";
  \<^item> \<open>DescriptionNotString item\<close>: "description is not a string in item: {item}";
  \<^item> \<open>FileIndicesNotList item\<close>: "file_indices is not a list in item: {item}";
  \<^item> \<open>InvalidFileIndex idx nm m\<close>: "Invalid file index {idx} found in item {nm}. Max index
    is {m}.", with \<open>m = file_count - 1\<close>;
  \<^item> \<open>CouldNotParseIndex entry nm\<close>: "Could not parse index from entry: {entry} in item
    {nm}";
  \<^item> \<open>OutputNotDict\<close>, \<open>SummaryNotString\<close>, \<open>RelationshipsNotList\<close>: the three checks of
    the top level of AnalyzeRelationships;
  \<^item> \<open>MissingRelationshipKeys rel\<close>, \<open>LabelNotString rel\<close>: the two checks of a
    relationship item;
  \<^item> \<open>InvalidRelationshipIndex f t m\<close>: "Invalid index in relationship: from={f}, to={t}.
    Max index is {m}.";
  \<^item> \<open>CouldNotParseRelationship rel\<close>: "Could not parse indices from relationship: {rel}";
  \<^item> \<open>InvalidOrderIndex idx m\<close>: "Invalid index {idx} in ordered list. Max index is {m}.";
  \<^item> \<open>DuplicateIndex idx\<close>: "Duplicate index {idx} found in ordered list.";
  \<^item> \<open>CouldNotParseOrderEntry entry\<close>: "Could not parse index from ordered list entry:
    {entry}";
  \<^item> \<open>LengthMismatch k n missing\<close>: "Ordered list length ({k}) does not match number of
    abstractions ({n}). Missing indices: {missing}".
\<close>

datatype error =
    InvalidLiteral
  | OutputNotList
  | MissingKeys yaml
  | DescriptionNotString yaml
  | FileIndicesNotList yaml
  | InvalidFileIndex int yaml int
  | CouldNotParseIndex yaml yaml
  | OutputNotDict
  | SummaryNotString
  | RelationshipsNotList
  | MissingRelationshipKeys yaml
  | LabelNotString yaml
  | InvalidRelationshipIndex int int int
  | CouldNotParseRelationship yaml
  | InvalidOrderIndex int int
  | DuplicateIndex int
  | CouldNotParseOrderEntry yaml
  | LengthMismatch nat nat "int set"

section \<open>Context helpers\<close>

text \<open>
  An index handed to \<open>get_content_for_indices\<close> is an \<open>int\<close>, or a \<open>bool\<close>:
  IdentifyAbstractions keeps \<open>True\<close> and \<open>False\<close> as they are among the \<open>files\<close> of an
  abstraction. In a comparison and as a list index a \<open>bool\<close> counts as 1 or 0; an
  f-string renders it \<open>True\<close> or \<open>False\<close>.
\<close>

datatype py_index = IInt int | IBool bool

fun index_value :: "py_index \<Rightarrow> int" where
  "index_value (IInt i) = i"
| "index_value (IBool b) = (if b then 1 else 0)"

fun index_str :: "py_index \<Rightarrow> string" where
  "index_str (IInt i) = str_int i"
| "index_str (IBool b) = (if b then ''True'' else ''False'')"

text \<open>
  \<open>get_content_for_indices(files_data, indices)\<close>: \<open>files_data\<close> is a list of
  \<open>(path, content)\<close> pairs, the result a dict with the keys \<open>f"{i} # {path}"\<close>.
\<close>

fun content_loop ::
  "(string \<times> string) list \<Rightarrow> py_index list \<Rightarrow> (string \<rightharpoonup> string) \<Rightarrow> (string \<rightharpoonup> string)" where
  "content_loop files_data [] content_map = content_map"
| "content_loop files_data (i # indices) content_map =
     content_loop files_data indices
       (if 0 \<le> index_value i \<and> index_value i < int (length files_data)
        then (case files_data ! nat (index_value i) of
                (path, content) \<Rightarrow> content_map(index_str i @ '' # '' @ path \<mapsto> content))
        else content_map)"

definition get_content_for_indices ::
  "(string \<times> string) list \<Rightarrow> py_index list \<Rightarrow> (string \<rightharpoonup> string)" where
  "get_content_for_indices files_data indices = content_loop files_data indices Map.empty"

section \<open>Index entries\<close>

text \<open>
  The coercion of \<open>IdentifyAbstractions.exec\<close> (a \<open>file_indices\<close> entry) and of
  \<open>OrderChapters.exec\<close> (an entry of the ordered list), the same statements in both:
  an \<open>int\<close> is taken as it is, a string holding \<open>#\<close> is cut at the first \<open>#\<close>, anything
  else goes through \<open>int(str(entry).strip())\<close>. \<open>bool\<close> is a subclass of \<open>int\<close>, so
  \<open>isinstance(True, int)\<close> holds and \<open>True\<close> is taken as it is; it is written here as
  the integer it equals, 1 (\<open>False\<close> as 0), which is what the range check, \<open>set\<close> and
  \<open>sorted\<close> see.
\<close>

fun index_of_entry :: "yaml \<Rightarrow> int option" where
  "index_of_entry (YInt i) = Some i"
| "index_of_entry (YBool b) = Some (if b then 1 else 0)"
| "index_of_entry (YStr s) =
     (if CHR ''#'' \<in> set s then py_int (strip (first_piece (CHR ''#'') s))
      else py_int (strip (py_str (YStr s))))"
| "index_of_entry e = py_int (strip (py_str e))"

text \<open>
  The coercion of \<open>AnalyzeRelationships.exec\<close>:
  \<open>int(str(rel[key]).split('#')[0].strip())\<close>.
\<close>

definition relationship_index :: "yaml \<Rightarrow> int option" where
  "relationship_index v = py_int (strip (first_piece (CHR ''#'') (py_str v)))"

definition is_bool :: "yaml \<Rightarrow> bool" where
  "is_bool v = (case v of YBool _ \<Rightarrow> True | _ \<Rightarrow> False)"

section \<open>IdentifyAbstractions\<close>

record abstraction =
  name :: yaml
  description :: string
  files :: "int list"

text \<open>The body of the \<open>try\<close> for one \<open>file_indices\<close> entry.\<close>

definition file_index_try :: "yaml \<Rightarrow> yaml \<Rightarrow> nat \<Rightarrow> error + int" where
  "file_index_try idx_entry item_name file_count =
     (case index_of_entry idx_entry of
        None \<Rightarrow> Inl InvalidLiteral
      | Some idx \<Rightarrow>
          if \<not> (0 \<le> idx \<and> idx < int file_count)
          then Inl (InvalidFileIndex idx item_name (int file_count - 1))
          else Inr idx)"

text \<open>
  The \<open>try\<close> with its handler: \<open>except (ValueError, TypeError)\<close> catches whatever the
  body raised and raises the parse failure of the entry in its place.
\<close>

definition file_index :: "yaml \<Rightarrow> yaml \<Rightarrow> nat \<Rightarrow> error + int" where
  "file_index idx_entry item_name file_count =
     (case file_index_try idx_entry item_name file_count of
        Inl _ \<Rightarrow> Inl (CouldNotParseIndex idx_entry item_name)
      | Inr idx \<Rightarrow> Inr idx)"

fun validate_indices :: "yaml list \<Rightarrow> yaml \<Rightarrow> nat \<Rightarrow> int list \<Rightarrow> error + int list" where
  "validate_indices [] item_name file_count validated_indices = Inr validated_indices"
| "validate_indices (idx_entry # rest) item_name file_count validated_indices =
     (case file_index idx_entry item_name file_count of
        Inl e \<Rightarrow> Inl e
      | Inr idx \<Rightarrow> validate_indices rest item_name file_count (validated_indices @ [idx]))"

definition validate_item :: "yaml \<Rightarrow> nat \<Rightarrow> error + abstraction" where
  "validate_item item file_count =
     (case item of
        YDict d \<Rightarrow>
          if \<not> list_all (has_key d) [''name'', ''description'', ''file_indices'']
          then Inl (MissingKeys item)
          else (case (get_key d ''name'', get_key d ''description'', get_key d ''file_indices'') of
                  (Some nm, Some (YStr descr), Some (YList entries)) \<Rightarrow>
                    (case validate_indices entries nm file_count [] of
                       Inl e \<Rightarrow> Inl e
                     | Inr validated_indices \<Rightarrow>
                         Inr \<lparr>name = nm, description = descr,
                              files = sorted_list_of_set (set validated_indices)\<rparr>)
                | (Some nm, Some (YStr descr), _) \<Rightarrow> Inl (FileIndicesNotList item)
                | _ \<Rightarrow> Inl (DescriptionNotString item))
      | _ \<Rightarrow> Inl (MissingKeys item))"

fun validate_items :: "yaml list \<Rightarrow> nat \<Rightarrow> abstraction list \<Rightarrow> error + abstraction list" where
  "validate_items [] file_count validated_abstractions = Inr validated_abstractions"
| "validate_items (item # rest) file_count validated_abstractions =
     (case validate_item item file_count of
        Inl e \<Rightarrow> Inl e
      | Inr a \<Rightarrow> validate_items rest file_count (validated_abstractions @ [a]))"

text \<open>The validation of \<open>IdentifyAbstractions.exec\<close>, from the parsed YAML on.\<close>

definition identify_abstractions :: "yaml \<Rightarrow> nat \<Rightarrow> error + abstraction list" where
  "identify_abstractions abstractions file_count =
     (case abstractions of
        YList items \<Rightarrow> validate_items items file_count []
      | _ \<Rightarrow> Inl OutputNotList)"

section \<open>AnalyzeRelationships\<close>

record relationship =
  from_idx :: int
  to_idx :: int
  label :: string

record relationships =
  summary :: string
  details :: "relationship list"

text \<open>
  \<open>prep\<close>: one line \<open>"<i> # <name>"\<close> per abstraction, joined by newlines. \<open>exec\<close>
  reads the number of abstractions back as the number of lines of that text.
\<close>

definition abstraction_listing :: "abstraction list \<Rightarrow> string" where
  "abstraction_listing abstractions =
     join [nl] (map (\<lambda>(i, abstr). str_int (int i) @ '' # '' @ py_str (name abstr))
                    (enumerate 0 abstractions))"

definition num_abstractions_of :: "string \<Rightarrow> nat" where
  "num_abstractions_of listing = length (split nl listing)"

text \<open>The body of the \<open>try\<close> for one relationship, and the \<open>try\<close> with its handler.\<close>

definition relationship_try :: "yaml \<Rightarrow> yaml \<Rightarrow> string \<Rightarrow> nat \<Rightarrow> error + relationship" where
  "relationship_try from_abstraction to_abstraction lbl num_abstractions =
     (case relationship_index from_abstraction of
        None \<Rightarrow> Inl InvalidLiteral
      | Some f \<Rightarrow>
          (case relationship_index to_abstraction of
             None \<Rightarrow> Inl InvalidLiteral
           | Some t \<Rightarrow>
               if \<not> (0 \<le> f \<and> f < int num_abstractions \<and> 0 \<le> t \<and> t < int num_abstractions)
               then Inl (InvalidRelationshipIndex f t (int num_abstractions - 1))
               else Inr \<lparr>from_idx = f, to_idx = t, label = lbl\<rparr>))"

definition validate_relationship :: "yaml \<Rightarrow> nat \<Rightarrow> error + relationship" where
  "validate_relationship rel num_abstractions =
     (case rel of
        YDict d \<Rightarrow>
          if \<not> list_all (has_key d) [''from_abstraction'', ''to_abstraction'', ''label'']
          then Inl (MissingRelationshipKeys rel)
          else (case (get_key d ''from_abstraction'', get_key d ''to_abstraction'',
                      get_key d ''label'') of
                  (Some fa, Some ta, Some (YStr lbl)) \<Rightarrow>
                    (case relationship_try fa ta lbl num_abstractions of
                       Inl _ \<Rightarrow> Inl (CouldNotParseRelationship rel)
                     | Inr r \<Rightarrow> Inr r)
                | _ \<Rightarrow> Inl (LabelNotString rel))
      | _ \<Rightarrow> Inl (MissingRelationshipKeys rel))"

fun validate_relationships ::
  "yaml list \<Rightarrow> nat \<Rightarrow> relationship list \<Rightarrow> error + relationship list" where
  "validate_relationships [] num_abstractions validated_relationships =
     Inr validated_relationships"
| "validate_relationships (rel # rest) num_abstractions validated_relationships =
     (case validate_relationship rel num_abstractions of
        Inl e \<Rightarrow> Inl e
      | Inr r \<Rightarrow> validate_relationships rest num_abstractions (validated_relationships @ [r]))"

text \<open>
  The validation of \<open>AnalyzeRelationships.exec\<close>, from the parsed YAML and the
  abstraction listing of \<open>prep\<close>.
\<close>

definition analyze_relationships :: "string \<Rightarrow> yaml \<Rightarrow> error + relationships" where
  "analyze_relationships abstraction_listing_text relationships_data =
     (case relationships_data of
        YDict d \<Rightarrow>
          if \<not> list_all (has_key d) [''summary'', ''relationships'']
          then Inl OutputNotDict
          else (case get_key d ''summary'' of
                  Some (YStr s) \<Rightarrow>
                    (case get_key d ''relationships'' of
                       Some (YList rels) \<Rightarrow>
                         (case validate_relationships rels
                                 (num_abstractions_of abstraction_listing_text) [] of
                            Inl e \<Rightarrow> Inl e
                          | Inr validated \<Rightarrow> Inr \<lparr>summary = s, details = validated\<rparr>)
                     | _ \<Rightarrow> Inl RelationshipsNotList)
                | _ \<Rightarrow> Inl SummaryNotString)
      | _ \<Rightarrow> Inl OutputNotDict)"

section \<open>OrderChapters\<close>

text \<open>The body of the \<open>try\<close> for one entry of the ordered list, and its handler.\<close>

definition order_entry_try :: "yaml \<Rightarrow> nat \<Rightarrow> int set \<Rightarrow> error + int" where
  "order_entry_try entry num_abstractions seen_indices =
     (case index_of_entry entry of
        None \<Rightarrow> Inl InvalidLiteral
      | Some idx \<Rightarrow>
          if \<not> (0 \<le> idx \<and> idx < int num_abstractions)
          then Inl (InvalidOrderIndex idx (int num_abstractions - 1))
          else if idx \<in> seen_indices then Inl (DuplicateIndex idx)
          else Inr idx)"

definition order_entry :: "yaml \<Rightarrow> nat \<Rightarrow> int set \<Rightarrow> error + int" where
  "order_entry entry num_abstractions seen_indices =
     (case order_entry_try entry num_abstractions seen_indices of
        Inl _ \<Rightarrow> Inl (CouldNotParseOrderEntry entry)
      | Inr idx \<Rightarrow> Inr idx)"

fun order_loop :: "yaml list \<Rightarrow> nat \<Rightarrow> int list \<Rightarrow> int set \<Rightarrow> error + int list \<times> int set" where
  "order_loop [] num_abstractions ordered_indices seen_indices =
     Inr (ordered_indices, seen_indices)"
| "order_loop (entry # rest) num_abstractions ordered_indices seen_indices =
     (case order_entry entry num_abstractions seen_indices of
        Inl e \<Rightarrow> Inl e
      | Inr idx \<Rightarrow>
          order_loop rest num_abstractions (ordered_indices @ [idx]) (insert idx seen_indices))"

text \<open>
  The validation of \<open>OrderChapters.exec\<close>, from the parsed YAML on. The length check
  comes after the loop and outside every \<open>try\<close>.
\<close>

definition order_chapters :: "yaml \<Rightarrow> nat \<Rightarrow> error + int list" where
  "order_chapters ordered_indices_raw num_abstractions =
     (case ordered_indices_raw of
        YList entries \<Rightarrow>
          (case order_loop entries num_abstractions [] {} of
             Inl e \<Rightarrow> Inl e
           | Inr (ordered_indices, seen_indices) \<Rightarrow>
               if length ordered_indices \<noteq> num_abstractions
               then Inl (LengthMismatch (length ordered_indices) num_abstractions
                           (set (map int [0..<num_abstractions]) - seen_indices))
               else Inr ordered_indices)
      | _ \<Rightarrow> Inl OutputNotList)"

section \<open>WriteChapters\<close>

text \<open>
  The chapter filename of \<open>WriteChapters.prep\<close> and \<open>CombineTutorial.prep\<close> for
  position \<open>i\<close> of \<open>enumerate(chapter_order)\<close> and a string name:
  \<open>f"{i+1:02d}_{safe_name}.md"\<close>. The format \<open>02d\<close> pads with zeros to two characters
  and never truncates.
\<close>

definition safe_name :: "string \<Rightarrow> string" where
  "safe_name chapter_name = lower (map (\<lambda>c. if isalnum c then c else CHR ''_'') chapter_name)"

definition zero_pad2 :: "string \<Rightarrow> string" where
  "zero_pad2 s = replicate (2 - length s) (CHR ''0'') @ s"

definition chapter_filename :: "nat \<Rightarrow> string \<Rightarrow> string" where
  "chapter_filename i chapter_name =
     zero_pad2 (str_int (int i + 1)) @ ''_'' @ safe_name chapter_name @ ''.md''"

text \<open>The heading cleanup of \<open>WriteChapters.exec\<close> on the response \<open>chapter_content\<close>.\<close>

definition actual_heading :: "int \<Rightarrow> yaml \<Rightarrow> string" where
  "actual_heading chapter_num abstraction_name =
     ''# Chapter '' @ str_int chapter_num @ '': '' @ py_str abstraction_name"

definition normalize_heading :: "int \<Rightarrow> yaml \<Rightarrow> string \<Rightarrow> string" where
  "normalize_heading chapter_num abstraction_name chapter_content =
     (if \<not> startswith (strip chapter_content) (''# Chapter '' @ str_int chapter_num)
      then (case split nl (strip chapter_content) of
              l # ls \<Rightarrow>
                if startswith (strip l) ''#''
                then join [nl] (actual_heading chapter_num abstraction_name # ls)
                else actual_heading chapter_num abstraction_name @ [nl, nl] @ chapter_content
            | [] \<Rightarrow> actual_heading chapter_num abstraction_name @ [nl, nl] @ chapter_content)
      else chapter_content)"

section \<open>CombineTutorial\<close>

definition attribution :: string where
  "attribution = ''---'' @ [nl, nl] @
     ''Generated by [AI Codebase Knowledge Builder](https://github.com/The-Pocket/Tutorial-Codebase-Knowledge)''"

text \<open>
  The two statements of \<open>CombineTutorial.prep\<close> on a chapter's text: two newlines are
  appended unless the text ends with two, then the attribution.
\<close>

definition ensure_blank_line :: "string \<Rightarrow> string" where
  "ensure_blank_line chapter_content =
     (if \<not> endswith chapter_content [nl, nl] then chapter_content @ [nl, nl]
      else chapter_content)"

definition add_attribution :: "string \<Rightarrow> string" where
  "add_attribution chapter_content = ensure_blank_line chapter_content @ attribution"

section \<open>Auxiliary notions of the statements and proofs\<close>

text \<open>
  The number of newlines a text ends with, the value of a digit string, and a name for
  the key \<open>f"{i} # {path}"\<close> in the proofs about \<open>get_content_for_indices\<close>.
\<close>

definition content_key :: "py_index \<Rightarrow> string \<Rightarrow> string" where
  "content_key i path = index_str i @ '' # '' @ path"

definition trailing_newlines :: "string \<Rightarrow> nat" where
  "trailing_newlines s = length (takeWhile (\<lambda>c. c = nl) (rev s))"

definition digits_value :: "string \<Rightarrow> nat" where
  "digits_value ds = foldl (\<lambda>a c. 10 * a + digit_val c) 0 ds"

declare str_nat.simps [simp del]

section \<open>Strings: splitting, digits and integer literals\<close>

lemma split_not_Nil: "split c s \<noteq> []"
  by (induction s) (auto split: list.splits)

lemma split_notin: "c \<notin> set s \<Longrightarrow> split c s = [s]"
  by (induction s) auto

lemma first_piece_notin: "c \<notin> set s \<Longrightarrow> first_piece c s = s"
  by (simp add: first_piece_def split_notin)

lemma first_piece_Cons: "x \<noteq> c \<Longrightarrow> first_piece c (x # xs) = x # first_piece c xs"
  by (cases "split c xs") (auto simp: first_piece_def split_not_Nil)

lemma length_split: "length (split c s) = Suc (count_list s c)"
  by (induction s) (auto split: list.splits simp: split_not_Nil)

lemma of_char_digit_char: "d < 10 \<Longrightarrow> (of_char (digit_char d) :: nat) = 48 + d"
  by (simp add: digit_char_def)

lemma isdigit_digit_char: "d < 10 \<Longrightarrow> isdigit (digit_char d)"
  by (simp add: isdigit_def of_char_digit_char)

lemma digit_val_digit_char: "d < 10 \<Longrightarrow> digit_val (digit_char d) = d"
  by (simp add: digit_val_def of_char_digit_char)

lemma str_nat_digits: "c \<in> set (str_nat n) \<Longrightarrow> isdigit c"
proof (induction n arbitrary: c rule: str_nat.induct)
  case (1 n)
  show ?case
  proof (cases "n < 10")
    case True
    with "1.prems" show ?thesis
      by (simp add: str_nat.simps [of n] isdigit_digit_char)
  next
    case False
    with "1.prems" have "c \<in> set (str_nat (n div 10)) \<or> c = digit_char (n mod 10)"
      by (auto simp: str_nat.simps [of n])
    with False "1.IH" show ?thesis
      by (auto simp: isdigit_digit_char)
  qed
qed

lemma str_nat_not_Nil: "str_nat n \<noteq> []"
  by (simp add: str_nat.simps [of n])

lemma digits_value_snoc: "digits_value (ds @ [c]) = 10 * digits_value ds + digit_val c"
  by (simp add: digits_value_def)

lemma digits_value_str_nat: "digits_value (str_nat n) = n"
proof (induction n rule: str_nat.induct)
  case (1 n)
  show ?case
  proof (cases "n < 10")
    case True
    then show ?thesis
      by (simp add: str_nat.simps [of n] digits_value_def digit_val_digit_char)
  next
    case False
    with "1.IH" show ?thesis
      by (simp add: str_nat.simps [of n] digits_value_snoc digit_val_digit_char)
  qed
qed

lemma py_digits_all_digits:
  "ds \<noteq> [] \<Longrightarrow> \<forall>c\<in>set ds. isdigit c \<Longrightarrow>
   py_digits acc ds = Some (foldl (\<lambda>a c. 10 * a + digit_val c) acc ds)"
proof (induction acc ds rule: py_digits.induct)
  case (1 acc)
  then show ?case by simp
next
  case (2 acc c)
  then show ?case by simp
next
  case (3 acc c d cs)
  from "3.prems" have "isdigit d" by simp
  then have "d \<noteq> CHR ''_''" by (auto simp: isdigit_def)
  with 3 show ?case by simp
qed

lemma py_digits_str_nat: "py_digits 0 (str_nat n) = Some n"
  using py_digits_all_digits [of "str_nat n" 0] digits_value_str_nat [of n]
  by (simp add: str_nat_not_Nil str_nat_digits digits_value_def)

lemma strip_with_none: "\<forall>c\<in>set s. \<not> ws c \<Longrightarrow> strip_with ws s = s"
proof -
  assume a: "\<forall>c\<in>set s. \<not> ws c"
  then have "dropWhile ws s = s" by (cases s) auto
  moreover from a have "\<forall>c\<in>set (rev s). \<not> ws c" by simp
  then have "dropWhile ws (rev s) = rev s" by (cases "rev s") auto
  ultimately show ?thesis by (simp add: strip_with_def)
qed

lemma int_isspace_isspace: "int_isspace c \<Longrightarrow> isspace c"
  by (auto simp: int_isspace_def isspace_def)

lemma str_int_no_space: "c \<in> set (str_int i) \<Longrightarrow> \<not> isspace c"
  by (auto simp: str_int_def isspace_def dest!: str_nat_digits split: if_splits simp: isdigit_def)

lemma str_int_no_hash: "CHR ''#'' \<notin> set (str_int i)"
  by (auto simp: str_int_def dest!: str_nat_digits split: if_splits simp: isdigit_def)

lemma str_int_no_nl: "nl \<notin> set (str_int i)"
  by (auto simp: str_int_def dest!: str_nat_digits split: if_splits simp: isdigit_def)

lemma strip_str_int: "strip (str_int i) = str_int i"
  unfolding strip_def by (rule strip_with_none) (auto dest: str_int_no_space)

lemma int_strip_str_int: "strip_with int_isspace (str_int i) = str_int i"
  by (rule strip_with_none) (auto dest: str_int_no_space int_isspace_isspace)

lemma str_nat_hd_not_sign: "str_nat n = c # cs \<Longrightarrow> c \<noteq> CHR ''-'' \<and> c \<noteq> CHR ''+''"
  using str_nat_digits [of c n] by (auto simp: isdigit_def)

lemma py_int_str_int: "py_int (str_int i) = Some i"
proof (cases "i < 0")
  case True
  then show ?thesis
    by (simp add: py_int_def int_strip_str_int) (simp add: str_int_def py_digits_str_nat)
next
  case False
  obtain c cs where cs: "str_nat (nat i) = c # cs"
    using str_nat_not_Nil [of "nat i"] by (cases "str_nat (nat i)") auto
  from False have "str_int i = c # cs" by (simp add: str_int_def cs)
  moreover have "py_digits 0 (c # cs) = Some (nat i)"
    using py_digits_str_nat [of "nat i"] by (simp add: cs)
  ultimately show ?thesis
    using False str_nat_hd_not_sign [OF cs] int_strip_str_int [of i]
    by (simp add: py_int_def)
qed

lemma dropWhile_snoc_keeps: "\<not> P c \<Longrightarrow> \<exists>ys. dropWhile P (xs @ [c]) = ys @ [c]"
  by (induction xs) auto

lemma strip_with_Cons_keeps: "\<not> ws c \<Longrightarrow> \<exists>r'. strip_with ws (c # r) = c # r'"
proof -
  assume c: "\<not> ws c"
  then obtain ys where "dropWhile ws (rev r @ [c]) = ys @ [c]"
    using dropWhile_snoc_keeps [of ws c "rev r"] by blast
  with c show ?thesis by (simp add: strip_with_def)
qed

lemma py_digits_not_digit: "\<not> isdigit c \<Longrightarrow> py_digits acc (c # r) = None"
  by (cases r) auto

lemma py_int_bad_start:
  assumes "\<not> isspace c" "\<not> isdigit c" "c \<noteq> CHR ''-''" "c \<noteq> CHR ''+''"
  shows "py_int (c # r) = None"
proof -
  from assms(1) have "\<not> int_isspace c" by (auto dest: int_isspace_isspace)
  then obtain r' where "strip_with int_isspace (c # r) = c # r'"
    using strip_with_Cons_keeps [of int_isspace c r] by blast
  with assms show ?thesis
    by (simp add: py_int_def py_digits_not_digit)
qed

lemma py_int_strip_bad_start:
  assumes "\<not> isspace c" "\<not> isdigit c" "c \<noteq> CHR ''-''" "c \<noteq> CHR ''+''"
  shows "py_int (strip (c # r)) = None"
proof -
  obtain r' where "strip (c # r) = c # r'"
    using strip_with_Cons_keeps [of isspace c r] assms(1) unfolding strip_def by blast
  with assms show ?thesis
    by (simp add: py_int_bad_start)
qed

lemma bracket_facts:
  "\<not> isspace (CHR ''['')" "\<not> isdigit (CHR ''['')" "\<not> isspace (CHR ''{'')" "\<not> isdigit (CHR ''{'')"
  by (simp_all add: isspace_def isdigit_def)

lemma coercions_agree_int: "relationship_index (YInt i) = index_of_entry (YInt i)"
  by (simp add: relationship_index_def first_piece_notin str_int_no_hash strip_str_int py_int_str_int)

lemma coercions_agree_str: "relationship_index (YStr s) = index_of_entry (YStr s)"
  by (simp add: relationship_index_def first_piece_notin)

lemma coercions_agree_null: "relationship_index YNull = index_of_entry YNull"
  by code_simp

lemma coercions_agree_list: "relationship_index (YList xs) = index_of_entry (YList xs)"
  by (simp add: relationship_index_def first_piece_Cons py_int_strip_bad_start bracket_facts)

lemma coercions_agree_dict: "relationship_index (YDict kvs) = index_of_entry (YDict kvs)"
  by (simp add: relationship_index_def first_piece_Cons py_int_strip_bad_start bracket_facts)

lemma takeWhile_digits_then:
  "\<forall>c\<in>set ds. isdigit c \<Longrightarrow> \<not> isdigit x \<Longrightarrow> takeWhile isdigit (ds @ x # r) = ds"
  by (induction ds) auto

lemma str_int_nonneg: "0 \<le> i \<Longrightarrow> str_int i = str_nat (nat i)"
  by (simp add: str_int_def)

lemma digits_value_zeros: "digits_value (replicate k (CHR ''0'') @ ds) = digits_value ds"
proof -
  have "foldl (\<lambda>a c. 10 * a + digit_val c) 0 (replicate k (CHR ''0'')) = 0"
    by (induction k) (simp_all add: digit_val_def)
  then show ?thesis by (simp add: digits_value_def)
qed

lemma zero_pad2_digits: "\<forall>c\<in>set ds. isdigit c \<Longrightarrow> \<forall>c\<in>set (zero_pad2 ds). isdigit c"
  by (auto simp: zero_pad2_def isdigit_def)

section \<open>OrderChapters: what the validation reports\<close>

text \<open>
  C3. The response \<open>[0, 0, 1]\<close> for 2 abstractions: the spec has the stage fail with a
  duplicate error naming index 0, before the length check. The stage does fail before the
  length check, at the second entry, and the body of the \<open>try\<close> does raise the duplicate
  error for index 0; but the handler of that same \<open>try\<close> catches it, and what the stage
  raises is the parse failure of the entry. On every entry, the \<open>try\<close> with its handler
  either yields an index or raises that parse failure, never the duplicate error.
\<close>

theorem order_duplicate_reported_as_parse_failure:
  "order_chapters (YList [YInt 0, YInt 0, YInt 1]) 2 = Inl (CouldNotParseOrderEntry (YInt 0))
   \<and> order_entry_try (YInt 0) 2 {0} = Inl (DuplicateIndex 0)
   \<and> order_chapters (YList [YInt 0, YInt 0, YInt 1]) 2 \<noteq> Inl (DuplicateIndex 0)
   \<and> (order_entry entry num_abstractions seen_indices = Inl (CouldNotParseOrderEntry entry)
        \<or> (\<exists>idx. order_entry entry num_abstractions seen_indices = Inr idx))"
proof -
  have "order_chapters (YList [YInt 0, YInt 0, YInt 1]) 2 = Inl (CouldNotParseOrderEntry (YInt 0))
   \<and> order_entry_try (YInt 0) 2 {0} = Inl (DuplicateIndex 0)
   \<and> order_chapters (YList [YInt 0, YInt 0, YInt 1]) 2 \<noteq> Inl (DuplicateIndex 0)"
    by code_simp
  moreover have "order_entry entry num_abstractions seen_indices = Inl (CouldNotParseOrderEntry entry)
        \<or> (\<exists>idx. order_entry entry num_abstractions seen_indices = Inr idx)"
    by (simp add: order_entry_def split: sum.splits)
  ultimately show ?thesis by blast
qed

text \<open>
  C4. The response \<open>[0]\<close> for 2 abstractions: the loop accepts the one entry, the length
  check fails, and the error names the missing indices \<open>{1}\<close>, the difference between
  \<open>{0, 1}\<close> and the indices seen.
\<close>

theorem order_missing_index_reported:
  "order_loop [YInt 0] 2 [] {} = Inr ([0], {0})
   \<and> order_chapters (YList [YInt 0]) 2 = Inl (LengthMismatch 1 2 ({0, 1} - {0}))
   \<and> order_chapters (YList [YInt 0]) 2 = Inl (LengthMismatch 1 2 {1})"
  by code_simp

section \<open>IdentifyAbstractions: what the validation reports\<close>

text \<open>
  C1. An entry that coerces to an integer outside \<open>[0, file_count)\<close>: the spec has the
  stage fail with a range error naming the index, the abstraction and the valid range, a
  failure of another kind than the parse failure. With 3 files and the entry \<open>5\<close> in
  abstraction \<open>X\<close>, the body of the \<open>try\<close> raises that range error, the handler catches
  it, and the stage raises the same parse failure as for the entry \<open>abc\<close>. On every entry,
  the \<open>try\<close> with its handler either yields an index or raises that parse failure, never
  the range error.
\<close>

theorem identify_range_failure_reported_as_parse_failure:
  "identify_abstractions
     (YList [YDict [(YStr ''name'', YStr ''X''), (YStr ''description'', YStr ''d''),
                    (YStr ''file_indices'', YList [YInt 5])]]) 3
     = Inl (CouldNotParseIndex (YInt 5) (YStr ''X''))
   \<and> identify_abstractions
     (YList [YDict [(YStr ''name'', YStr ''X''), (YStr ''description'', YStr ''d''),
                    (YStr ''file_indices'', YList [YStr ''abc''])]]) 3
     = Inl (CouldNotParseIndex (YStr ''abc'') (YStr ''X''))
   \<and> file_index_try (YInt 5) (YStr ''X'') 3 = Inl (InvalidFileIndex 5 (YStr ''X'') 2)
   \<and> (file_index idx_entry item_name file_count = Inl (CouldNotParseIndex idx_entry item_name)
        \<or> (\<exists>idx. file_index idx_entry item_name file_count = Inr idx))"
proof -
  have "identify_abstractions
     (YList [YDict [(YStr ''name'', YStr ''X''), (YStr ''description'', YStr ''d''),
                    (YStr ''file_indices'', YList [YInt 5])]]) 3
     = Inl (CouldNotParseIndex (YInt 5) (YStr ''X''))
   \<and> identify_abstractions
     (YList [YDict [(YStr ''name'', YStr ''X''), (YStr ''description'', YStr ''d''),
                    (YStr ''file_indices'', YList [YStr ''abc''])]]) 3
     = Inl (CouldNotParseIndex (YStr ''abc'') (YStr ''X''))
   \<and> file_index_try (YInt 5) (YStr ''X'') 3 = Inl (InvalidFileIndex 5 (YStr ''X'') 2)"
    by code_simp
  moreover have "file_index idx_entry item_name file_count
          = Inl (CouldNotParseIndex idx_entry item_name)
        \<or> (\<exists>idx. file_index idx_entry item_name file_count = Inr idx)"
    by (simp add: file_index_def split: sum.splits)
  ultimately show ?thesis by blast
qed

section \<open>The two index coercions\<close>

text \<open>
  Off the booleans the two coercions agree: on an integer, a string, \<open>None\<close>, a list and
  a dict the coercion of AnalyzeRelationships gives what the coercion of
  IdentifyAbstractions gives, the same integer or the same refusal.
\<close>

lemma coercions_agree_off_bool:
  "\<not> is_bool v \<Longrightarrow> relationship_index v = index_of_entry v"
  by (cases v)
     (simp_all add: is_bool_def coercions_agree_int coercions_agree_str coercions_agree_null
        coercions_agree_list coercions_agree_dict)

lemma coercions_agree_example:
  "relationship_index (YStr ''2 # core.py'') = Some 2
   \<and> index_of_entry (YStr ''2 # core.py'') = Some 2"
  by code_simp

text \<open>
  C2. The spec has the coercion of AnalyzeRelationships accept the same values, with the
  same integer, as the coercion of IdentifyAbstractions, on every YAML value: an integer
  or a string with a leading integer is accepted, everything else refused. On the YAML
  value \<open>true\<close> they differ: \<open>isinstance(True, int)\<close> holds, so IdentifyAbstractions
  takes \<open>True\<close> as the index 1, while AnalyzeRelationships reads the text \<open>True\<close> and
  refuses it. With 3 files, IdentifyAbstractions accepts \<open>file_indices: [true]\<close> and
  gives the abstraction the file 1; with 2 abstractions, AnalyzeRelationships fails on
  \<open>from_abstraction: true\<close>.
\<close>

theorem coercions_differ_on_bool:
  "index_of_entry (YBool True) = Some 1 \<and> relationship_index (YBool True) = None
   \<and> relationship_index (YBool True) \<noteq> index_of_entry (YBool True)
   \<and> identify_abstractions
        (YList [YDict [(YStr ''name'', YStr ''X''), (YStr ''description'', YStr ''d''),
                       (YStr ''file_indices'', YList [YBool True])]]) 3
       = Inr [\<lparr>name = YStr ''X'', description = ''d'', files = [1]\<rparr>]
   \<and> analyze_relationships
        (abstraction_listing [\<lparr>name = YStr ''X'', description = ''dx'', files = [0]\<rparr>,
                              \<lparr>name = YStr ''Y'', description = ''dy'', files = [1]\<rparr>])
        (YDict [(YStr ''summary'', YStr ''s''),
                (YStr ''relationships'',
                 YList [YDict [(YStr ''from_abstraction'', YBool True),
                               (YStr ''to_abstraction'', YInt 0),
                               (YStr ''label'', YStr ''uses'')]])])
       = Inl (CouldNotParseRelationship
                (YDict [(YStr ''from_abstraction'', YBool True),
                        (YStr ''to_abstraction'', YInt 0),
                        (YStr ''label'', YStr ''uses'')]))"
  by code_simp

section \<open>IdentifyAbstractions: the files of an abstraction\<close>

lemma file_index_Inr:
  "file_index e nm fc = Inr idx \<Longrightarrow> index_of_entry e = Some idx \<and> 0 \<le> idx \<and> idx < int fc"
  by (auto simp: file_index_def file_index_try_def split: option.splits if_splits sum.splits)

lemma validate_indices_Inr:
  "validate_indices es nm fc acc = Inr r \<Longrightarrow>
   \<exists>idxs. r = acc @ idxs \<and> map index_of_entry es = map Some idxs
          \<and> (\<forall>i\<in>set idxs. 0 \<le> i \<and> i < int fc)"
proof (induction es arbitrary: acc)
  case Nil
  then show ?case by simp
next
  case (Cons e es)
  from Cons.prems obtain idx where e: "file_index e nm fc = Inr idx"
    and rest: "validate_indices es nm fc (acc @ [idx]) = Inr r"
    by (auto split: sum.splits)
  from Cons.IH [OF rest] obtain idxs where
    "r = (acc @ [idx]) @ idxs" "map index_of_entry es = map Some idxs"
    "\<forall>i\<in>set idxs. 0 \<le> i \<and> i < int fc"
    by blast
  with file_index_Inr [OF e] show ?case
    by (intro exI [of _ "idx # idxs"]) simp
qed

lemma validate_item_Inr:
  "validate_item item fc = Inr a \<Longrightarrow>
   \<exists>d entries idxs.
        item = YDict d \<and> get_key d ''file_indices'' = Some (YList entries)
        \<and> map index_of_entry entries = map Some idxs
        \<and> (\<forall>i\<in>set idxs. 0 \<le> i \<and> i < int fc)
        \<and> files a = sorted_list_of_set (set idxs)"
proof -
  assume v: "validate_item item fc = Inr a"
  then obtain d where d: "item = YDict d"
    by (cases item) (simp_all add: validate_item_def)
  from v d obtain nm descr entries r where
    g: "get_key d ''file_indices'' = Some (YList entries)"
    and r: "validate_indices entries nm fc [] = Inr r"
    and a: "a = \<lparr>name = nm, description = descr, files = sorted_list_of_set (set r)\<rparr>"
    by (auto simp: validate_item_def split: if_splits option.splits yaml.splits sum.splits)
  from validate_indices_Inr [OF r] obtain idxs where
    "r = idxs" "map index_of_entry entries = map Some idxs" "\<forall>i\<in>set idxs. 0 \<le> i \<and> i < int fc"
    by auto
  with d g a show ?thesis by auto
qed

lemma validate_items_Inr:
  "validate_items items fc acc = Inr out \<Longrightarrow>
   \<exists>new. out = acc @ new \<and> list_all2 (\<lambda>item a. validate_item item fc = Inr a) items new"
proof (induction items arbitrary: acc)
  case Nil
  then show ?case by simp
next
  case (Cons item items)
  from Cons.prems obtain a where a: "validate_item item fc = Inr a"
    and rest: "validate_items items fc (acc @ [a]) = Inr out"
    by (auto split: sum.splits)
  from Cons.IH [OF rest] obtain new where
    "out = (acc @ [a]) @ new" "list_all2 (\<lambda>item a. validate_item item fc = Inr a) items new"
    by blast
  with a show ?case
    by (intro exI [of _ "a # new"]) simp
qed

lemma count_list_distinct: "distinct xs \<Longrightarrow> x \<in> set xs \<Longrightarrow> count_list xs x = 1"
  by (induction xs) (auto simp: count_list_0_iff)

text \<open>
  C5. When the validation of IdentifyAbstractions succeeds, the response is a list, and
  item by item the output's \<open>files\<close> is what the item's \<open>file_indices\<close> gives: every
  entry coerces to an index within \<open>[0, file_count)\<close>, and \<open>files\<close> is the sorted list of
  the set of those indices. It is sorted, has no duplicates, holds the same indices, and
  each index of the input, however often repeated there, occurs in it once.
\<close>

theorem identify_files_sorted_deduplicated:
  assumes "identify_abstractions response file_count = Inr out"
  shows "\<exists>items. response = YList items \<and>
     list_all2 (\<lambda>item a.
        \<exists>d entries idxs.
          item = YDict d \<and> get_key d ''file_indices'' = Some (YList entries)
          \<and> map index_of_entry entries = map Some idxs
          \<and> (\<forall>i\<in>set idxs. 0 \<le> i \<and> i < int file_count)
          \<and> files a = sorted_list_of_set (set idxs)
          \<and> sorted (files a) \<and> distinct (files a) \<and> set (files a) = set idxs
          \<and> (\<forall>i\<in>set idxs. count_list (files a) i = 1)) items out"
proof -
  from assms obtain items where items: "response = YList items"
    and v: "validate_items items file_count [] = Inr out"
    by (cases response) (simp_all add: identify_abstractions_def)
  from validate_items_Inr [OF v]
  have "list_all2 (\<lambda>item a. validate_item item file_count = Inr a) items out"
    by simp
  then have "list_all2 (\<lambda>item a.
        \<exists>d entries idxs.
          item = YDict d \<and> get_key d ''file_indices'' = Some (YList entries)
          \<and> map index_of_entry entries = map Some idxs
          \<and> (\<forall>i\<in>set idxs. 0 \<le> i \<and> i < int file_count)
          \<and> files a = sorted_list_of_set (set idxs)
          \<and> sorted (files a) \<and> distinct (files a) \<and> set (files a) = set idxs
          \<and> (\<forall>i\<in>set idxs. count_list (files a) i = 1)) items out"
  proof (rule list_all2_mono)
    fix item a
    assume "validate_item item file_count = Inr a"
    from validate_item_Inr [OF this] obtain d entries idxs where
      h: "item = YDict d" "get_key d ''file_indices'' = Some (YList entries)"
         "map index_of_entry entries = map Some idxs"
         "\<forall>i\<in>set idxs. 0 \<le> i \<and> i < int file_count"
         "files a = sorted_list_of_set (set idxs)"
      by blast
    have "\<forall>i\<in>set idxs. count_list (files a) i = 1"
      by (simp add: h(5) count_list_distinct)
    with h show "\<exists>d entries idxs.
          item = YDict d \<and> get_key d ''file_indices'' = Some (YList entries)
          \<and> map index_of_entry entries = map Some idxs
          \<and> (\<forall>i\<in>set idxs. 0 \<le> i \<and> i < int file_count)
          \<and> files a = sorted_list_of_set (set idxs)
          \<and> sorted (files a) \<and> distinct (files a) \<and> set (files a) = set idxs
          \<and> (\<forall>i\<in>set idxs. count_list (files a) i = 1)"
      by (intro exI [of _ d] exI [of _ entries] exI [of _ idxs]) simp
  qed
  with items show ?thesis by blast
qed

theorem identify_files_sorted_deduplicated_witness:
  "identify_abstractions
     (YList [YDict [(YStr ''name'', YStr ''X''), (YStr ''description'', YStr ''d''),
                    (YStr ''file_indices'',
                     YList [YInt 2, YStr ''0 # a.py'', YStr '' 2 '', YInt 1, YInt 2])]]) 3
     = Inr [\<lparr>name = YStr ''X'', description = ''d'', files = [0, 1, 2]\<rparr>]
   \<and> (\<exists>idxs. map index_of_entry [YInt 2, YStr ''0 # a.py'', YStr '' 2 '', YInt 1, YInt 2]
                  = map Some idxs
              \<and> [0, 1, 2] = sorted_list_of_set (set idxs)
              \<and> set [0, 1, 2] = set idxs
              \<and> (\<forall>i\<in>set idxs. count_list [0, 1, 2] i = 1))"
proof -
  let ?entries = "[YInt 2, YStr ''0 # a.py'', YStr '' 2 '', YInt 1, YInt 2]"
  let ?d = "[(YStr ''name'', YStr ''X''), (YStr ''description'', YStr ''d''),
             (YStr ''file_indices'', YList ?entries)]"
  let ?a = "\<lparr>name = YStr ''X'', description = ''d'', files = [0, 1, 2]\<rparr>"
  have h: "identify_abstractions (YList [YDict ?d]) 3 = Inr [?a]"
    by code_simp
  have g: "get_key ?d ''file_indices'' = Some (YList ?entries)"
    by code_simp
  from identify_files_sorted_deduplicated [OF h] obtain items where
    i: "YList [YDict ?d] = YList items"
    and l: "list_all2 (\<lambda>item a.
        \<exists>d entries idxs.
          item = YDict d \<and> get_key d ''file_indices'' = Some (YList entries)
          \<and> map index_of_entry entries = map Some idxs
          \<and> (\<forall>i\<in>set idxs. 0 \<le> i \<and> i < int 3)
          \<and> files a = sorted_list_of_set (set idxs)
          \<and> sorted (files a) \<and> distinct (files a) \<and> set (files a) = set idxs
          \<and> (\<forall>i\<in>set idxs. count_list (files a) i = 1)) items [?a]"
    by blast
  from i have "items = [YDict ?d]" by simp
  with l have "list_all2 (\<lambda>item a.
        \<exists>d entries idxs.
          item = YDict d \<and> get_key d ''file_indices'' = Some (YList entries)
          \<and> map index_of_entry entries = map Some idxs
          \<and> (\<forall>i\<in>set idxs. 0 \<le> i \<and> i < int 3)
          \<and> files a = sorted_list_of_set (set idxs)
          \<and> sorted (files a) \<and> distinct (files a) \<and> set (files a) = set idxs
          \<and> (\<forall>i\<in>set idxs. count_list (files a) i = 1)) [YDict ?d] [?a]"
    by (simp only:)
  then obtain d entries idxs where
    d: "YDict ?d = YDict d" and e: "get_key d ''file_indices'' = Some (YList entries)"
    and m: "map index_of_entry entries = map Some idxs"
    and f: "files ?a = sorted_list_of_set (set idxs)" "set (files ?a) = set idxs"
       "\<forall>i\<in>set idxs. count_list (files ?a) i = 1"
    unfolding list_all2_Cons by blast
  from d have "d = ?d" by simp
  with e g have "entries = ?entries" by simp
  with m f have "map index_of_entry ?entries = map Some idxs
              \<and> [0, 1, 2] = sorted_list_of_set (set idxs)
              \<and> set [0, 1, 2] = set idxs
              \<and> (\<forall>i\<in>set idxs. count_list [0, 1, 2] i = 1)"
    by simp
  with h show ?thesis by blast
qed

section \<open>WriteChapters: the heading of a chapter\<close>

lemma join_Cons_prefix: "prefix h (join sep (h # ls))"
  by (cases ls) simp_all

lemma normalize_heading_unchanged:
  "startswith (strip content) (''# Chapter '' @ str_int n) \<Longrightarrow> normalize_heading n nm content = content"
  by (simp add: normalize_heading_def)

lemma normalize_heading_replaced:
  assumes "\<not> startswith (strip content) (''# Chapter '' @ str_int n)"
    and "startswith (strip (first_piece nl (strip content))) ''#''"
  shows "normalize_heading n nm content = join [nl] (actual_heading n nm # tl (split nl (strip content)))"
  using assms
  by (cases "split nl (strip content)")
     (simp_all add: normalize_heading_def first_piece_def split_not_Nil)

lemma normalize_heading_prepended:
  assumes "\<not> startswith (strip content) (''# Chapter '' @ str_int n)"
    and "\<not> startswith (strip (first_piece nl (strip content))) ''#''"
  shows "normalize_heading n nm content = actual_heading n nm @ [nl, nl] @ content"
  using assms
  by (cases "split nl (strip content)")
     (simp_all add: normalize_heading_def first_piece_def split_not_Nil)

text \<open>
  C6 (as amended). The heading step is a total function of the response: no statement of
  it can raise. A response that, once stripped, starts with \<open># Chapter <n>:\<close>, the right
  number whatever the title, is returned as it is. A response that, once stripped, does
  not start with \<open># Chapter <n>\<close> is returned starting with the expected heading
  \<open># Chapter <n>: <name>\<close>: when the first line of the stripped response, stripped, starts
  with \<open>#\<close>, that line is replaced by the heading in the stripped response; otherwise the
  heading and a blank line are put before the response.
\<close>

theorem normalize_heading_cases:
  "(startswith (strip content) (''# Chapter '' @ str_int n @ '':'') \<longrightarrow>
      normalize_heading n nm content = content)
   \<and> (\<not> startswith (strip content) (''# Chapter '' @ str_int n) \<longrightarrow>
      startswith (normalize_heading n nm content)
        (''# Chapter '' @ str_int n @ '': '' @ py_str nm))
   \<and> (\<not> startswith (strip content) (''# Chapter '' @ str_int n)
       \<and> startswith (strip (first_piece nl (strip content))) ''#'' \<longrightarrow>
      normalize_heading n nm content
        = join [nl] ((''# Chapter '' @ str_int n @ '': '' @ py_str nm)
                     # tl (split nl (strip content))))
   \<and> (\<not> startswith (strip content) (''# Chapter '' @ str_int n)
       \<and> \<not> startswith (strip (first_piece nl (strip content))) ''#'' \<longrightarrow>
      normalize_heading n nm content
        = (''# Chapter '' @ str_int n @ '': '' @ py_str nm) @ [nl, nl] @ content)"
proof -
  have h: "''# Chapter '' @ str_int n @ '': '' @ py_str nm = actual_heading n nm"
    by (simp add: actual_heading_def)
  have "startswith (strip content) (''# Chapter '' @ str_int n)"
    if "startswith (strip content) (''# Chapter '' @ str_int n @ '':'')"
  proof -
    from that have "prefix ((''# Chapter '' @ str_int n) @ '':'') (strip content)"
      by (simp add: startswith_def)
    then have "prefix (''# Chapter '' @ str_int n) (strip content)"
      by (rule append_prefixD)
    then show ?thesis by (simp add: startswith_def)
  qed
  then have 1: "normalize_heading n nm content = content"
    if "startswith (strip content) (''# Chapter '' @ str_int n @ '':'')"
    using that normalize_heading_unchanged [of content n nm] by blast
  have 2: "startswith (normalize_heading n nm content) (actual_heading n nm)"
    if a: "\<not> startswith (strip content) (''# Chapter '' @ str_int n)"
  proof (cases "startswith (strip (first_piece nl (strip content))) ''#''")
    case True
    show ?thesis
      unfolding normalize_heading_replaced [OF a True] startswith_def
      by (rule join_Cons_prefix)
  next
    case False
    show ?thesis
      unfolding normalize_heading_prepended [OF a False] startswith_def
      by simp
  qed
  show ?thesis
    unfolding h
    using 1 2 normalize_heading_replaced [of content n nm]
      normalize_heading_prepended [of content n nm]
    by blast
qed

theorem normalize_heading_cases_witness:
  "startswith (strip ('' # Chapter 2: Y'')) (''# Chapter '' @ str_int 2 @ '':'')
   \<and> normalize_heading 2 (YStr ''X'') '' # Chapter 2: Y'' = '' # Chapter 2: Y''
   \<and> \<not> startswith (strip (''## Intro'' @ [nl] @ ''text'')) (''# Chapter '' @ str_int 2)
   \<and> startswith (strip (first_piece nl (strip (''## Intro'' @ [nl] @ ''text'')))) ''#''
   \<and> normalize_heading 2 (YStr ''X'') (''## Intro'' @ [nl] @ ''text'')
        = ''# Chapter 2: X'' @ [nl] @ ''text''
   \<and> \<not> startswith (strip ''text'') (''# Chapter '' @ str_int 2)
   \<and> \<not> startswith (strip (first_piece nl (strip ''text''))) ''#''
   \<and> normalize_heading 2 (YStr ''X'') ''text'' = ''# Chapter 2: X'' @ [nl, nl] @ ''text''
   \<and> startswith (normalize_heading 2 (YStr ''X'') ''text'') ''# Chapter 2: X''"
proof -
  have a: "startswith (strip ('' # Chapter 2: Y'')) (''# Chapter '' @ str_int 2 @ '':'')"
    by code_simp
  have b: "\<not> startswith (strip (''## Intro'' @ [nl] @ ''text'')) (''# Chapter '' @ str_int 2)"
    by code_simp
  have c: "startswith (strip (first_piece nl (strip (''## Intro'' @ [nl] @ ''text'')))) ''#''"
    by code_simp
  have d: "\<not> startswith (strip ''text'') (''# Chapter '' @ str_int 2)"
    by code_simp
  have e: "\<not> startswith (strip (first_piece nl (strip ''text''))) ''#''"
    by code_simp
  have f: "join [nl] ((''# Chapter '' @ str_int 2 @ '': '' @ py_str (YStr ''X''))
                      # tl (split nl (strip (''## Intro'' @ [nl] @ ''text''))))
             = ''# Chapter 2: X'' @ [nl] @ ''text''"
    by code_simp
  have g: "''# Chapter '' @ str_int 2 @ '': '' @ py_str (YStr ''X'') = ''# Chapter 2: X''"
    by code_simp
  from a normalize_heading_cases [of "'' # Chapter 2: Y''" 2 "YStr ''X''"]
  have 1: "normalize_heading 2 (YStr ''X'') '' # Chapter 2: Y'' = '' # Chapter 2: Y''"
    by blast
  from b c normalize_heading_cases [of "''## Intro'' @ [nl] @ ''text''" 2 "YStr ''X''"]
  have 2: "normalize_heading 2 (YStr ''X'') (''## Intro'' @ [nl] @ ''text'')
        = ''# Chapter 2: X'' @ [nl] @ ''text''"
    unfolding f by blast
  from d e normalize_heading_cases [of "''text''" 2 "YStr ''X''"]
  have 3: "normalize_heading 2 (YStr ''X'') ''text'' = ''# Chapter 2: X'' @ [nl, nl] @ ''text''"
    and 4: "startswith (normalize_heading 2 (YStr ''X'') ''text'') ''# Chapter 2: X''"
    unfolding g by blast+
  from a b c d e 1 2 3 4 show ?thesis by blast
qed

text \<open>
  C6 as the spec states it has every returned text begin with the expected heading. The
  response \<open># Chapter 1: Other\<close> for chapter 1 of abstraction \<open>X\<close> starts with
  \<open># Chapter 1\<close>, so it is returned as it is, and it does not begin with
  \<open># Chapter 1: X\<close>.
\<close>

theorem heading_left_when_number_matches:
  "normalize_heading 1 (YStr ''X'') ''# Chapter 1: Other'' = ''# Chapter 1: Other''
   \<and> actual_heading 1 (YStr ''X'') = ''# Chapter 1: X''
   \<and> \<not> startswith (normalize_heading 1 (YStr ''X'') ''# Chapter 1: Other'')
         (actual_heading 1 (YStr ''X''))"
  by code_simp

section \<open>CombineTutorial: the attribution of a chapter\<close>

lemma trailing_newlines_append2: "trailing_newlines (s @ [nl, nl]) = trailing_newlines s + 2"
  by (simp add: trailing_newlines_def)

lemma endswith_two_newlines: "endswith s [nl, nl] \<longleftrightarrow> 2 \<le> trailing_newlines s"
proof -
  have "suffix [nl, nl] s \<longleftrightarrow> prefix [nl, nl] (rev s)"
    by (simp add: suffix_to_prefix)
  also have "\<dots> \<longleftrightarrow> 2 \<le> length (takeWhile (\<lambda>c. c = nl) (rev s))"
  proof (cases "rev s")
    case Nil
    then show ?thesis by simp
  next
    case (Cons x xs)
    then show ?thesis by (cases xs) auto
  qed
  finally show ?thesis by (simp add: endswith_def trailing_newlines_def)
qed

text \<open>
  C7 (as amended). The chapter document is the chapter's text, then two newlines unless
  the text ends with two already, then the attribution. What stands before the
  attribution always ends with two newlines. It ends with as many newlines as the text
  when the text ends with two or more, and with two more than the text otherwise; so it
  ends with exactly two, one blank line, exactly when the text ends with no newline or
  with two.
\<close>

theorem attribution_after_blank_line:
  "add_attribution chapter_content
     = chapter_content @ (if endswith chapter_content [nl, nl] then [] else [nl, nl]) @ attribution
   \<and> endswith (ensure_blank_line chapter_content) [nl, nl]
   \<and> trailing_newlines (ensure_blank_line chapter_content)
       = (if 2 \<le> trailing_newlines chapter_content then trailing_newlines chapter_content
          else trailing_newlines chapter_content + 2)
   \<and> (trailing_newlines (ensure_blank_line chapter_content) = 2
        \<longleftrightarrow> trailing_newlines chapter_content = 0 \<or> trailing_newlines chapter_content = 2)"
proof -
  have 1: "add_attribution chapter_content
     = chapter_content @ (if endswith chapter_content [nl, nl] then [] else [nl, nl]) @ attribution"
    by (simp add: add_attribution_def ensure_blank_line_def)
  have 3: "trailing_newlines (ensure_blank_line chapter_content)
       = (if 2 \<le> trailing_newlines chapter_content then trailing_newlines chapter_content
          else trailing_newlines chapter_content + 2)"
    by (simp add: ensure_blank_line_def endswith_two_newlines trailing_newlines_append2)
  have 2: "endswith (ensure_blank_line chapter_content) [nl, nl]"
    unfolding endswith_two_newlines 3 by simp
  have 4: "trailing_newlines (ensure_blank_line chapter_content) = 2
        \<longleftrightarrow> trailing_newlines chapter_content = 0 \<or> trailing_newlines chapter_content = 2"
    unfolding 3 by auto
  from 1 2 3 4 show ?thesis by blast
qed

text \<open>
  C7 as the spec states it has exactly one blank line before the attribution whatever the
  text ends with. The text \<open>abc\<close> followed by one newline gets two more: three newlines,
  two blank lines, stand before the attribution.
\<close>

theorem attribution_after_two_blank_lines:
  "add_attribution (''abc'' @ [nl]) = ''abc'' @ [nl, nl, nl] @ attribution
   \<and> trailing_newlines (ensure_blank_line (''abc'' @ [nl])) = 3"
  by code_simp

section \<open>Chapter filenames\<close>

lemma chapter_filename_prefix:
  "takeWhile isdigit (chapter_filename i nm) = zero_pad2 (str_nat (Suc i))"
proof -
  have s: "str_int (int i + 1) = str_nat (Suc i)"
    by (simp add: str_int_nonneg nat_add_distrib)
  have d: "\<forall>c\<in>set (zero_pad2 (str_nat (Suc i))). isdigit c"
    by (rule zero_pad2_digits) (auto dest: str_nat_digits)
  have u: "\<not> isdigit (CHR ''_'')" by (simp add: isdigit_def)
  show ?thesis
    using takeWhile_digits_then [OF d u] by (simp add: chapter_filename_def s)
qed

text \<open>
  C8. Two different positions never give the same chapter filename, whatever the two
  names are, the same name included, and whatever the number of digits of the position;
  so the filenames of the positions of any list of names are pairwise different.
\<close>

theorem chapter_filenames_distinct:
  "(i \<noteq> j \<longrightarrow> chapter_filename i a \<noteq> chapter_filename j b)
   \<and> distinct (map (\<lambda>(i, chapter_name). chapter_filename i chapter_name)
                  (enumerate 0 chapter_names))"
proof -
  have inj: "i = j" if "chapter_filename i a = chapter_filename j b" for i j a b
  proof -
    from that have "takeWhile isdigit (chapter_filename i a) = takeWhile isdigit (chapter_filename j b)"
      by simp
    then have "digits_value (zero_pad2 (str_nat (Suc i))) = digits_value (zero_pad2 (str_nat (Suc j)))"
      by (simp add: chapter_filename_prefix)
    then show "i = j"
      by (simp add: zero_pad2_def digits_value_zeros digits_value_str_nat)
  qed
  have "inj_on (\<lambda>(i, chapter_name). chapter_filename i chapter_name)
          (set (enumerate 0 chapter_names))"
  proof (rule inj_onI)
    fix p q
    assume p: "p \<in> set (enumerate 0 chapter_names)" and q: "q \<in> set (enumerate 0 chapter_names)"
      and e: "(case p of (i, chapter_name) \<Rightarrow> chapter_filename i chapter_name)
              = (case q of (i, chapter_name) \<Rightarrow> chapter_filename i chapter_name)"
    from e have "fst p = fst q"
      using inj [of "fst p" "snd p" "fst q" "snd q"] by (simp add: case_prod_beta)
    moreover from p q have "snd p = chapter_names ! fst p" "snd q = chapter_names ! fst q"
      by (auto simp: in_set_enumerate_eq)
    ultimately show "p = q" by (simp add: prod_eq_iff)
  qed
  then have "distinct (map (\<lambda>(i, chapter_name). chapter_filename i chapter_name)
                  (enumerate 0 chapter_names))"
    by (simp add: distinct_map distinct_enumerate)
  with inj show ?thesis by blast
qed

theorem chapter_filenames_distinct_witness:
  "(4::nat) \<noteq> 104
   \<and> chapter_filename 4 ''Flow'' = ''05_flow.md''
   \<and> chapter_filename 104 ''flow'' = ''105_flow.md''
   \<and> chapter_filename 4 ''Flow'' \<noteq> chapter_filename 104 ''flow''"
proof -
  have h: "(4::nat) \<noteq> 104" by simp
  have a: "chapter_filename 4 ''Flow'' = ''05_flow.md''" by code_simp
  have b: "chapter_filename 104 ''flow'' = ''105_flow.md''" by code_simp
  from h chapter_filenames_distinct [of 4 104 "''Flow''" "''flow''"]
  have "chapter_filename 4 ''Flow'' \<noteq> chapter_filename 104 ''flow''" by blast
  with h a b show ?thesis by blast
qed

section \<open>Selecting file contents by index\<close>

lemma str_int_inj: "str_int i = str_int j \<Longrightarrow> i = j"
proof -
  assume e: "str_int i = str_int j"
  have "Some i = py_int (str_int i)" by (simp only: py_int_str_int)
  also have "\<dots> = py_int (str_int j)" by (simp only: e)
  also have "\<dots> = Some j" by (simp only: py_int_str_int)
  finally show "i = j" by simp
qed

lemma str_int_chars: "c \<in> set (str_int i) \<Longrightarrow> c = CHR ''-'' \<or> isdigit c"
  by (auto simp: str_int_def dest: str_nat_digits split: if_splits)

lemma str_int_not_bool: "str_int i \<noteq> ''True''" "str_int i \<noteq> ''False''"
proof -
  show "str_int i \<noteq> ''True''"
  proof
    assume "str_int i = ''True''"
    then have "CHR ''T'' \<in> set (str_int i)" by simp
    from str_int_chars [OF this] show False by (simp add: isdigit_def)
  qed
  show "str_int i \<noteq> ''False''"
  proof
    assume "str_int i = ''False''"
    then have "CHR ''F'' \<in> set (str_int i)" by simp
    from str_int_chars [OF this] show False by (simp add: isdigit_def)
  qed
qed

lemma index_str_inj: "index_str i = index_str j \<Longrightarrow> i = j"
  using str_int_not_bool
  by (cases i; cases j) (auto dest: str_int_inj split: if_splits)

lemma index_str_no_blank: "CHR '' '' \<notin> set (index_str i)"
proof (cases i)
  case (IInt k)
  have "\<not> isspace c" if "c \<in> set (str_int k)" for c
    using that by (rule str_int_no_space)
  moreover have "isspace (CHR '' '')" by (simp add: isspace_def)
  ultimately show ?thesis using IInt by auto
next
  case (IBool b)
  then show ?thesis by simp
qed

lemma takeWhile_until: "x \<notin> set ds \<Longrightarrow> takeWhile (\<lambda>c. c \<noteq> x) (ds @ x # r) = ds"
  by (induction ds) auto

lemma content_key_inj: "content_key i p = content_key j q \<Longrightarrow> i = j"
proof -
  assume "content_key i p = content_key j q"
  then have "takeWhile (\<lambda>c. c \<noteq> CHR '' '') (content_key i p)
               = takeWhile (\<lambda>c. c \<noteq> CHR '' '') (content_key j q)"
    by simp
  then have "index_str i = index_str j"
    using takeWhile_until [OF index_str_no_blank, of i] takeWhile_until [OF index_str_no_blank, of j]
    by (simp add: content_key_def)
  then show ?thesis by (rule index_str_inj)
qed

lemma content_loop_Cons:
  "content_loop fs (j # idxs) m =
     content_loop fs idxs
       (if 0 \<le> index_value j \<and> index_value j < int (length fs)
        then m(content_key j (fst (fs ! nat (index_value j))) \<mapsto> snd (fs ! nat (index_value j)))
        else m)"
  by (simp add: case_prod_beta content_key_def)

lemma selected_keys_Cons:
  "{content_key i (fst (fs ! nat (index_value i))) | i.
      i \<in> set (j # idxs) \<and> 0 \<le> index_value i \<and> index_value i < int (length fs)}
     = (if 0 \<le> index_value j \<and> index_value j < int (length fs)
        then insert (content_key j (fst (fs ! nat (index_value j))))
               {content_key i (fst (fs ! nat (index_value i))) | i.
                  i \<in> set idxs \<and> 0 \<le> index_value i \<and> index_value i < int (length fs)}
        else {content_key i (fst (fs ! nat (index_value i))) | i.
                i \<in> set idxs \<and> 0 \<le> index_value i \<and> index_value i < int (length fs)})"
  by auto

lemma content_loop_dom:
  "dom (content_loop fs idxs m) =
     dom m \<union> {content_key i (fst (fs ! nat (index_value i))) | i.
                i \<in> set idxs \<and> 0 \<le> index_value i \<and> index_value i < int (length fs)}"
proof (induction idxs arbitrary: m)
  case Nil
  then show ?case by simp
next
  case (Cons j idxs)
  show ?case
    unfolding content_loop_Cons selected_keys_Cons Cons.IH by simp
qed

lemma content_loop_lookup:
  assumes "0 \<le> index_value i" "index_value i < int (length fs)"
  shows "content_loop fs idxs m (content_key i (fst (fs ! nat (index_value i))))
           = (if i \<in> set idxs then Some (snd (fs ! nat (index_value i)))
              else m (content_key i (fst (fs ! nat (index_value i)))))"
  using assms
proof (induction idxs arbitrary: m)
  case Nil
  then show ?case by simp
next
  case (Cons j idxs)
  have neq: "content_key i (fst (fs ! nat (index_value i)))
               \<noteq> content_key j (fst (fs ! nat (index_value j)))" if "i \<noteq> j"
    using content_key_inj [of i _ j] that by blast
  have step: "content_loop fs idxs m' (content_key i (fst (fs ! nat (index_value i))))
         = (if i \<in> set idxs then Some (snd (fs ! nat (index_value i)))
            else m' (content_key i (fst (fs ! nat (index_value i)))))"
    for m'
    using Cons.IH [OF Cons.prems] .
  from Cons.prems show ?case
    unfolding content_loop_Cons step by (auto simp: neq)
qed

lemma content_keys_by_kind:
  "{content_key i (fst (fs ! nat (index_value i))) | i.
      i \<in> set idxs \<and> 0 \<le> index_value i \<and> index_value i < int (length fs)}
   = {content_key (IInt i) (fst (fs ! nat i)) | i.
        IInt i \<in> set idxs \<and> 0 \<le> i \<and> i < int (length fs)}
     \<union> {content_key (IBool b) (fst (fs ! (if b then 1 else 0))) | b.
          IBool b \<in> set idxs \<and> (if b then 1 else 0) < length fs}"
  (is "?L = ?I \<union> ?B")
proof (rule set_eqI)
  fix k
  show "k \<in> ?L \<longleftrightarrow> k \<in> ?I \<union> ?B"
  proof
    assume "k \<in> ?L"
    then obtain i where i: "k = content_key i (fst (fs ! nat (index_value i)))"
      "i \<in> set idxs" "0 \<le> index_value i" "index_value i < int (length fs)"
      by blast
    show "k \<in> ?I \<union> ?B"
    proof (cases i)
      case (IInt n)
      with i have "k \<in> ?I" by auto
      then show ?thesis by simp
    next
      case (IBool b)
      with i have "k = content_key (IBool b) (fst (fs ! (if b then 1 else 0)))"
        "IBool b \<in> set idxs" "(if b then 1 else 0) < length fs"
        by (auto split: if_splits)
      then have "k \<in> ?B" by blast
      then show ?thesis by simp
    qed
  next
    assume "k \<in> ?I \<union> ?B"
    then consider "k \<in> ?I" | "k \<in> ?B" by blast
    then show "k \<in> ?L"
    proof cases
      case 1
      then obtain n where "k = content_key (IInt n) (fst (fs ! nat n))"
        "IInt n \<in> set idxs" "0 \<le> n" "n < int (length fs)"
        by blast
      then show ?thesis
        by (intro CollectI exI [of _ "IInt n"]) simp
    next
      case 2
      then obtain b where "k = content_key (IBool b) (fst (fs ! (if b then 1 else 0)))"
        "IBool b \<in> set idxs" "(if b then 1 else 0) < length fs"
        by blast
      then show ?thesis
        by (intro CollectI exI [of _ "IBool b"]) (auto split: if_splits)
    qed
  qed
qed

text \<open>
  C9. \<open>get_content_for_indices\<close> is a total function: no statement of it can raise, an
  index is read from \<open>files_data\<close> only inside the range. For a requested integer \<open>i\<close>
  within \<open>[0, len(files_data))\<close> the result maps the string made of the decimal digits
  of \<open>i\<close>, \<open> # \<close> and the path of file \<open>i\<close> to the content of file \<open>i\<close>. A requested
  \<open>True\<close> or \<open>False\<close> counts as the index 1 or 0, and its key starts with \<open>True\<close> or
  \<open>False\<close>, as the f-string renders it. The result has these keys and no other: an
  index outside the range adds no key.
\<close>

theorem get_content_for_indices_keys:
  "(\<forall>i. IInt i \<in> set indices \<and> 0 \<le> i \<and> i < int (length files_data) \<longrightarrow>
       get_content_for_indices files_data indices (str_int i @ '' # '' @ fst (files_data ! nat i))
         = Some (snd (files_data ! nat i)))
   \<and> (\<forall>b. IBool b \<in> set indices \<and> (if b then 1 else 0) < length files_data \<longrightarrow>
       get_content_for_indices files_data indices
         ((if b then ''True'' else ''False'') @ '' # ''
            @ fst (files_data ! (if b then 1 else 0)))
         = Some (snd (files_data ! (if b then 1 else 0))))
   \<and> dom (get_content_for_indices files_data indices)
       = {str_int i @ '' # '' @ fst (files_data ! nat i) | i.
            IInt i \<in> set indices \<and> 0 \<le> i \<and> i < int (length files_data)}
         \<union> {(if b then ''True'' else ''False'') @ '' # ''
               @ fst (files_data ! (if b then 1 else 0)) | b.
              IBool b \<in> set indices \<and> (if b then 1 else 0) < length files_data}"
proof -
  have ki: "content_key (IInt i) p = str_int i @ '' # '' @ p" for i p
    by (simp add: content_key_def)
  have kb: "content_key (IBool b) p = (if b then ''True'' else ''False'') @ '' # '' @ p" for b p
    by (simp add: content_key_def)
  have 1: "get_content_for_indices files_data indices
             (content_key (IInt i) (fst (files_data ! nat i)))
           = Some (snd (files_data ! nat i))"
    if "IInt i \<in> set indices" "0 \<le> i" "i < int (length files_data)" for i
    using that content_loop_lookup [of "IInt i" files_data indices Map.empty]
    by (simp add: get_content_for_indices_def)
  have 2: "get_content_for_indices files_data indices
             (content_key (IBool b) (fst (files_data ! (if b then 1 else 0))))
           = Some (snd (files_data ! (if b then 1 else 0)))"
    if "IBool b \<in> set indices" "(if b then 1 else 0) < length files_data" for b
    using that content_loop_lookup [of "IBool b" files_data indices Map.empty]
    by (cases b) (simp_all add: get_content_for_indices_def)
  have 3: "dom (get_content_for_indices files_data indices)
       = {content_key (IInt i) (fst (files_data ! nat i)) | i.
            IInt i \<in> set indices \<and> 0 \<le> i \<and> i < int (length files_data)}
         \<union> {content_key (IBool b) (fst (files_data ! (if b then 1 else 0))) | b.
              IBool b \<in> set indices \<and> (if b then 1 else 0) < length files_data}"
    by (simp only: get_content_for_indices_def content_loop_dom content_keys_by_kind
          dom_empty Un_empty_left)
  from 1 2 3 show ?thesis
    unfolding ki kb by blast
qed

theorem get_content_for_indices_keys_witness:
  "IInt 1 \<in> set [IInt 1, IInt 5, IBool True, IInt (- 1), IInt 1] \<and> (0::int) \<le> 1
   \<and> (1::int) < int (length [(''a.py'', ''A''), (''b.py'', ''B'')])
   \<and> get_content_for_indices [(''a.py'', ''A''), (''b.py'', ''B'')]
        [IInt 1, IInt 5, IBool True, IInt (- 1), IInt 1] ''1 # b.py'' = Some ''B''
   \<and> IBool True \<in> set [IInt 1, IInt 5, IBool True, IInt (- 1), IInt 1]
   \<and> (1::nat) < length [(''a.py'', ''A''), (''b.py'', ''B'')]
   \<and> get_content_for_indices [(''a.py'', ''A''), (''b.py'', ''B'')]
        [IInt 1, IInt 5, IBool True, IInt (- 1), IInt 1] ''True # b.py'' = Some ''B''
   \<and> dom (get_content_for_indices [(''a.py'', ''A''), (''b.py'', ''B'')]
        [IInt 1, IInt 5, IBool True, IInt (- 1), IInt 1]) = {''1 # b.py'', ''True # b.py''}"
proof -
  let ?fs = "[(''a.py'', ''A''), (''b.py'', ''B'')]"
  let ?is = "[IInt 1, IInt 5, IBool True, IInt (- 1), IInt 1]"
  have h: "IInt 1 \<in> set ?is" "(0::int) \<le> 1" "(1::int) < int (length ?fs)"
    "IBool True \<in> set ?is" "(1::nat) < length ?fs"
    by simp_all
  have k: "str_int 1 = ''1''" by code_simp
  note t = get_content_for_indices_keys [of ?is ?fs]
  from t h have "get_content_for_indices ?fs ?is (str_int 1 @ '' # '' @ fst (?fs ! nat 1))
      = Some (snd (?fs ! nat 1))"
    by blast
  then have v: "get_content_for_indices ?fs ?is ''1 # b.py'' = Some ''B''"
    by (simp add: k)
  from t have "\<forall>b. IBool b \<in> set ?is \<and> (if b then 1 else 0) < length ?fs \<longrightarrow>
       get_content_for_indices ?fs ?is
         ((if b then ''True'' else ''False'') @ '' # '' @ fst (?fs ! (if b then 1 else 0)))
         = Some (snd (?fs ! (if b then 1 else 0)))"
    by blast
  from this [rule_format, of True] h
  have w: "get_content_for_indices ?fs ?is ''True # b.py'' = Some ''B''"
    by simp
  have "{str_int i @ '' # '' @ fst (?fs ! nat i) | i.
            IInt i \<in> set ?is \<and> 0 \<le> i \<and> i < int (length ?fs)} = {''1 # b.py''}"
    by (auto simp: k intro: exI [of _ 1])
  moreover have "{(if b then ''True'' else ''False'') @ '' # ''
               @ fst (?fs ! (if b then 1 else 0)) | b.
              IBool b \<in> set ?is \<and> (if b then 1 else 0) < length ?fs} = {''True # b.py''}"
    by auto
  ultimately have d: "dom (get_content_for_indices ?fs ?is) = {''1 # b.py'', ''True # b.py''}"
    using t by auto
  from h v w d show ?thesis by blast
qed

section \<open>AnalyzeRelationships: the bound of the range check\<close>

lemma count_list_join:
  "ls \<noteq> [] \<Longrightarrow>
   count_list (join [c] ls) c = (length ls - 1) + sum_list (map (\<lambda>l. count_list l c) ls)"
  by (induction "[c]" ls rule: join.induct) simp_all

lemma listing_lines_newlines:
  "map (\<lambda>l. count_list l nl)
     (map (\<lambda>(i, abstr). str_int (int i) @ '' # '' @ py_str (name abstr)) (enumerate k abstractions))
   = map (\<lambda>abstr. count_list (py_str (name abstr)) nl) abstractions"
proof -
  have "map (\<lambda>l. count_list l nl)
     (map (\<lambda>(i, abstr). str_int (int i) @ '' # '' @ py_str (name abstr)) (enumerate k abstractions))
     = map ((\<lambda>abstr. count_list (py_str (name abstr)) nl) \<circ> snd) (enumerate k abstractions)"
    by (simp add: case_prod_beta count_list_0_iff str_int_no_nl)
  also have "\<dots> = map (\<lambda>abstr. count_list (py_str (name abstr)) nl) (map snd (enumerate k abstractions))"
    by (simp only: map_map)
  finally show ?thesis by simp
qed

lemma num_abstractions_of_listing:
  "num_abstractions_of (abstraction_listing abstractions) =
     (if abstractions = [] then 1
      else length abstractions
           + sum_list (map (\<lambda>abstr. count_list (py_str (name abstr)) nl) abstractions))"
proof (cases "abstractions = []")
  case True
  then show ?thesis
    by (simp add: num_abstractions_of_def abstraction_listing_def)
next
  case False
  define lines where
    "lines = map (\<lambda>(i, abstr). str_int (int i) @ '' # '' @ py_str (name abstr))
                 (enumerate 0 abstractions)"
  have len: "length lines = length abstractions"
    by (simp add: lines_def)
  with False have ne: "lines \<noteq> []" by auto
  have cnt: "map (\<lambda>l. count_list l nl) lines
               = map (\<lambda>abstr. count_list (py_str (name abstr)) nl) abstractions"
    unfolding lines_def by (rule listing_lines_newlines)
  have "num_abstractions_of (abstraction_listing abstractions) = Suc (count_list (join [nl] lines) nl)"
    by (simp only: num_abstractions_of_def abstraction_listing_def length_split lines_def)
  also have "\<dots> = Suc ((length lines - 1) + sum_list (map (\<lambda>l. count_list l nl) lines))"
    by (simp only: count_list_join [OF ne])
  also have "\<dots> = length abstractions
           + sum_list (map (\<lambda>abstr. count_list (py_str (name abstr)) nl) abstractions)"
    using False by (simp add: len cnt)
  finally show ?thesis using False by simp
qed

lemma bound_is_count_iff:
  "num_abstractions_of (abstraction_listing abstractions) = length abstractions
   \<longleftrightarrow> abstractions \<noteq> [] \<and> (\<forall>abstr\<in>set abstractions. nl \<notin> set (py_str (name abstr)))"
  by (auto simp: num_abstractions_of_listing count_list_0_iff)

lemma relationship_try_Inr:
  "relationship_try fa ta lbl n = Inr r \<Longrightarrow>
   0 \<le> from_idx r \<and> from_idx r < int n \<and> 0 \<le> to_idx r \<and> to_idx r < int n"
  by (auto simp: relationship_try_def split: option.splits if_splits)

lemma validate_relationship_Inr:
  "validate_relationship rel n = Inr r \<Longrightarrow>
   0 \<le> from_idx r \<and> from_idx r < int n \<and> 0 \<le> to_idx r \<and> to_idx r < int n"
proof -
  assume v: "validate_relationship rel n = Inr r"
  then obtain d where d: "rel = YDict d"
    by (cases rel) (simp_all add: validate_relationship_def)
  from v d obtain fa ta lbl where "relationship_try fa ta lbl n = Inr r"
    by (auto simp: validate_relationship_def split: if_splits option.splits yaml.splits sum.splits)
  then show ?thesis by (rule relationship_try_Inr)
qed

lemma validate_relationships_Inr:
  "validate_relationships rels n acc = Inr out \<Longrightarrow>
   \<exists>new. out = acc @ new \<and>
     (\<forall>r\<in>set new. 0 \<le> from_idx r \<and> from_idx r < int n \<and> 0 \<le> to_idx r \<and> to_idx r < int n)"
proof (induction rels arbitrary: acc)
  case Nil
  then show ?case by simp
next
  case (Cons rel rels)
  from Cons.prems obtain r where r: "validate_relationship rel n = Inr r"
    and rest: "validate_relationships rels n (acc @ [r]) = Inr out"
    by (auto split: sum.splits)
  from Cons.IH [OF rest] obtain new where
    "out = (acc @ [r]) @ new"
    "\<forall>r\<in>set new. 0 \<le> from_idx r \<and> from_idx r < int n \<and> 0 \<le> to_idx r \<and> to_idx r < int n"
    by blast
  with validate_relationship_Inr [OF r] show ?case
    by (intro exI [of _ "r # new"]) simp
qed

lemma analyze_relationships_Inr:
  assumes "analyze_relationships listing relationships_data = Inr g"
  shows "\<forall>r\<in>set (details g).
           0 \<le> from_idx r \<and> from_idx r < int (num_abstractions_of listing)
           \<and> 0 \<le> to_idx r \<and> to_idx r < int (num_abstractions_of listing)"
proof -
  from assms obtain d where d: "relationships_data = YDict d"
    by (cases relationships_data) (simp_all add: analyze_relationships_def)
  from assms d obtain rels validated where
    v: "validate_relationships rels (num_abstractions_of listing) [] = Inr validated"
    and g: "details g = validated"
    by (auto simp: analyze_relationships_def split: if_splits option.splits yaml.splits sum.splits)
  from validate_relationships_Inr [OF v] g show ?thesis by simp
qed

text \<open>
  C10. \<open>exec\<close> takes the number of abstractions to be the number of lines of the listing
  that \<open>prep\<close> built. That number is the number of abstractions exactly when the list of
  abstractions is not empty and no name, as the listing renders it (a string name is
  rendered as it is), holds a newline; for the empty list it is 1. Under these two
  conditions every relationship of a validated result has its \<open>from\<close> and \<open>to\<close> within
  the positions of the abstractions.
\<close>

theorem relationship_bound_is_abstraction_count:
  "(num_abstractions_of (abstraction_listing abstractions) = length abstractions
      \<longleftrightarrow> abstractions \<noteq> [] \<and> (\<forall>abstr\<in>set abstractions. nl \<notin> set (py_str (name abstr))))
   \<and> num_abstractions_of (abstraction_listing []) = 1
   \<and> (abstractions \<noteq> [] \<and> (\<forall>abstr\<in>set abstractions. nl \<notin> set (py_str (name abstr)))
       \<and> analyze_relationships (abstraction_listing abstractions) relationships_data = Inr g
       \<longrightarrow> (\<forall>r\<in>set (details g).
              0 \<le> from_idx r \<and> from_idx r < int (length abstractions)
              \<and> 0 \<le> to_idx r \<and> to_idx r < int (length abstractions)))"
proof -
  have 1: "num_abstractions_of (abstraction_listing abstractions) = length abstractions
      \<longleftrightarrow> abstractions \<noteq> [] \<and> (\<forall>abstr\<in>set abstractions. nl \<notin> set (py_str (name abstr)))"
    by (rule bound_is_count_iff)
  have 2: "num_abstractions_of (abstraction_listing []) = 1"
    by (simp add: num_abstractions_of_listing)
  have 3: "\<forall>r\<in>set (details g).
              0 \<le> from_idx r \<and> from_idx r < int (length abstractions)
              \<and> 0 \<le> to_idx r \<and> to_idx r < int (length abstractions)"
    if "abstractions \<noteq> [] \<and> (\<forall>abstr\<in>set abstractions. nl \<notin> set (py_str (name abstr)))"
      and a: "analyze_relationships (abstraction_listing abstractions) relationships_data = Inr g"
  proof -
    from that(1) have "num_abstractions_of (abstraction_listing abstractions) = length abstractions"
      using bound_is_count_iff [of abstractions] by blast
    with analyze_relationships_Inr [OF a] show ?thesis by simp
  qed
  from 1 2 3 show ?thesis by blast
qed

theorem relationship_bound_is_abstraction_count_witness:
  "[\<lparr>name = YStr ''X'', description = ''dx'', files = [0, 1]\<rparr>,
    \<lparr>name = YStr ''Y'', description = ''dy'', files = [2]\<rparr>] \<noteq> []
   \<and> list_all (\<lambda>abstr. nl \<notin> set (py_str (name abstr)))
        [\<lparr>name = YStr ''X'', description = ''dx'', files = [0, 1]\<rparr>,
         \<lparr>name = YStr ''Y'', description = ''dy'', files = [2]\<rparr>]
   \<and> analyze_relationships
        (abstraction_listing [\<lparr>name = YStr ''X'', description = ''dx'', files = [0, 1]\<rparr>,
                              \<lparr>name = YStr ''Y'', description = ''dy'', files = [2]\<rparr>])
        (YDict [(YStr ''summary'', YStr ''s''),
                (YStr ''relationships'',
                 YList [YDict [(YStr ''from_abstraction'', YStr ''0 # X''),
                               (YStr ''to_abstraction'', YInt 1),
                               (YStr ''label'', YStr ''uses'')]])])
       = Inr \<lparr>summary = ''s'', details = [\<lparr>from_idx = 0, to_idx = 1, label = ''uses''\<rparr>]\<rparr>
   \<and> num_abstractions_of
        (abstraction_listing [\<lparr>name = YStr ''X'', description = ''dx'', files = [0, 1]\<rparr>,
                              \<lparr>name = YStr ''Y'', description = ''dy'', files = [2]\<rparr>]) = 2
   \<and> list_all (\<lambda>r. 0 \<le> from_idx r \<and> from_idx r < 2 \<and> 0 \<le> to_idx r \<and> to_idx r < 2)
        [\<lparr>from_idx = 0, to_idx = 1, label = ''uses''\<rparr>]"
proof -
  let ?abs = "[\<lparr>name = YStr ''X'', description = ''dx'', files = [0, 1]\<rparr>,
               \<lparr>name = YStr ''Y'', description = ''dy'', files = [2]\<rparr>]"
  let ?data = "YDict [(YStr ''summary'', YStr ''s''),
                (YStr ''relationships'',
                 YList [YDict [(YStr ''from_abstraction'', YStr ''0 # X''),
                               (YStr ''to_abstraction'', YInt 1),
                               (YStr ''label'', YStr ''uses'')]])]"
  let ?g = "\<lparr>summary = ''s'', details = [\<lparr>from_idx = 0, to_idx = 1, label = ''uses''\<rparr>]\<rparr>"
  have a: "?abs \<noteq> []" by simp
  have b: "\<forall>abstr\<in>set ?abs. nl \<notin> set (py_str (name abstr))" by simp
  have c: "analyze_relationships (abstraction_listing ?abs) ?data = Inr ?g" by code_simp
  note t = relationship_bound_is_abstraction_count [of ?abs ?data ?g]
  from t a b have n: "num_abstractions_of (abstraction_listing ?abs) = length ?abs" by blast
  from t a b c have "\<forall>r\<in>set (details ?g).
              0 \<le> from_idx r \<and> from_idx r < int (length ?abs)
              \<and> 0 \<le> to_idx r \<and> to_idx r < int (length ?abs)"
    by blast
  with a b c n show ?thesis by simp
qed

end
